theory Spec2Isabelle
  imports Complex_Main "HOL-Library.AList"
begin

section \<open>Python values used by script.py\<close>

text \<open>
  The exceptions that the modelled code can meet. \<open>TimeoutExpired\<close> and
  \<open>CalledProcessError\<close> come from \<^verbatim>\<open>subprocess.run\<close>, \<open>JSONDecodeError\<close> from
  \<^verbatim>\<open>json.load\<close>, \<open>ValueError\<close>, \<open>TypeError\<close> and \<open>OverflowError\<close> from
  \<^verbatim>\<open>int(...)\<close>. All of them are subclasses of \<^verbatim>\<open>Exception\<close>; asynchronous
  interrupts of the operator are no input of the program and are not modelled.
\<close>

datatype py_exn =
    TimeoutExpired
  | CalledProcessError
  | FileNotFoundError
  | FileExistsError
  | PermissionError
  | JSONDecodeError
  | ValueError
  | TypeError
  | OverflowError

text \<open>
  A Python \<^verbatim>\<open>float\<close> is modelled by its exact value: a rational, an infinity or
  not-a-number. Rounding and the range of the floats are outside the model.
\<close>

datatype pyfloat = Fin rat | PosInf | NegInf | NaN

datatype pynum = PInt int | PFloat pyfloat

text \<open>Truth value of a number in \<^verbatim>\<open>if x:\<close>: zero is false, everything else is true.\<close>

fun num_truthy :: "pynum \<Rightarrow> bool" where
  "num_truthy (PInt i) = (i \<noteq> 0)"
| "num_truthy (PFloat f) = (f \<noteq> Fin 0)"

text \<open>\<^verbatim>\<open>x / 2\<close>: true division, the result is always a float.\<close>

fun half_float :: "pyfloat \<Rightarrow> pyfloat" where
  "half_float (Fin r) = Fin (r / 2)"
| "half_float PosInf = PosInf"
| "half_float NegInf = NegInf"
| "half_float NaN = NaN"

fun div2 :: "pynum \<Rightarrow> pynum" where
  "div2 (PInt i) = PFloat (Fin (of_int i / 2))"
| "div2 (PFloat f) = PFloat (half_float f)"

section \<open>Strings\<close>

text \<open>
  A \<open>char\<close> stands for one code point below 256. \<open>is_digit\<close> is the class
  \<^verbatim>\<open>\d\<close> and \<open>is_space\<close> the class \<^verbatim>\<open>\s\<close> of a \<^verbatim>\<open>str\<close> pattern on that range;
  \<^verbatim>\<open>str.strip()\<close> removes the same white space.
\<close>

definition is_digit :: "char \<Rightarrow> bool" where
  "is_digit c = (48 \<le> (of_char c :: nat) \<and> (of_char c :: nat) \<le> 57)"

definition is_space :: "char \<Rightarrow> bool" where
  "is_space c =
     (let n = (of_char c :: nat)
      in (9 \<le> n \<and> n \<le> 13) \<or> (28 \<le> n \<and> n \<le> 32) \<or> n = 133 \<or> n = 160)"

definition digit_val :: "char \<Rightarrow> int" where
  "digit_val c = int (of_char c) - 48"

text \<open>\<^verbatim>\<open>s.strip()\<close>\<close>

definition strip :: "string \<Rightarrow> string" where
  "strip s = rev (dropWhile is_space (rev (dropWhile is_space s)))"

text \<open>\<^verbatim>\<open>s.replace(c, '')\<close> for a one-character \<^verbatim>\<open>c\<close>\<close>

definition remove_chr :: "char \<Rightarrow> string \<Rightarrow> string" where
  "remove_chr c s = filter (\<lambda>x. x \<noteq> c) s"

text \<open>The value of a string of decimal digits.\<close>

definition dec :: "string \<Rightarrow> int" where
  "dec s = foldl (\<lambda>a c. 10 * a + digit_val c) 0 s"

text \<open>
  The digit part of an integer literal: digits, with single underscores allowed between
  two digits.
\<close>

fun digit_groups :: "string \<Rightarrow> bool" where
  "digit_groups [] = False"
| "digit_groups [c] = is_digit c"
| "digit_groups (c # d # r) =
     (is_digit c \<and> (if d = CHR ''_'' then digit_groups r else digit_groups (d # r)))"

text \<open>
  \<^verbatim>\<open>int(s)\<close> for a string: surrounding white space is dropped, one sign is allowed,
  anything else than a decimal literal raises \<^verbatim>\<open>ValueError\<close>. The interpreter's
  optional limit on the number of digits is not modelled.
\<close>

definition py_int_str :: "string \<Rightarrow> py_exn + int" where
  "py_int_str s =
     (case strip s of
        [] \<Rightarrow> Inl ValueError
      | c # r \<Rightarrow>
          let body = (if c = CHR ''-'' \<or> c = CHR ''+'' then r else c # r);
              sgn = (if c = CHR ''-'' then - 1 else 1)
          in if digit_groups body then Inr (sgn * dec (remove_chr CHR ''_'' body))
             else Inl ValueError)"

section \<open>The regular expression of parse_duration\<close>

text \<open>
  The fragment of \<^verbatim>\<open>re\<close> that the pattern uses: a literal character, \<^verbatim>\<open>\d+\<close>,
  \<^verbatim>\<open>\s*\<close>, concatenation, an optional part \<^verbatim>\<open>(...)?\<close> and a numbered group. The
  matcher is the backtracking one of \<^verbatim>\<open>re\<close>: a quantifier takes as much as it can
  and gives characters back when the rest of the pattern fails; the continuation \<open>k\<close>
  is the rest of the pattern.
\<close>

datatype cls = Digit | Space

fun cls_mem :: "cls \<Rightarrow> char \<Rightarrow> bool" where
  "cls_mem Digit c = is_digit c"
| "cls_mem Space c = is_space c"

datatype regex =
    Lit char
  | Plus cls
  | Star cls
  | Seq regex regex
  | Opt regex
  | Grp nat regex

type_synonym groups = "nat \<Rightarrow> string option"

fun many :: "(char \<Rightarrow> bool) \<Rightarrow> nat \<Rightarrow> string \<Rightarrow> (string \<Rightarrow> 'r option) \<Rightarrow> 'r option" where
  "many p lo [] k = (if lo = 0 then k [] else None)"
| "many p lo (x # xs) k =
     (if p x then
        (case many p (lo - 1) xs k of
           Some r \<Rightarrow> Some r
         | None \<Rightarrow> if lo = 0 then k (x # xs) else None)
      else if lo = 0 then k (x # xs) else None)"

fun rmatch :: "regex \<Rightarrow> string \<Rightarrow> groups \<Rightarrow> (string \<Rightarrow> groups \<Rightarrow> 'r option) \<Rightarrow> 'r option" where
  "rmatch (Lit c) s g k = (case s of [] \<Rightarrow> None | x # xs \<Rightarrow> if x = c then k xs g else None)"
| "rmatch (Plus c) s g k = many (cls_mem c) 1 s (\<lambda>s'. k s' g)"
| "rmatch (Star c) s g k = many (cls_mem c) 0 s (\<lambda>s'. k s' g)"
| "rmatch (Seq a b) s g k = rmatch a s g (\<lambda>s' g'. rmatch b s' g' k)"
| "rmatch (Opt a) s g k = (case rmatch a s g k of Some r \<Rightarrow> Some r | None \<Rightarrow> k s g)"
| "rmatch (Grp i a) s g k =
     rmatch a s g (\<lambda>s' g'. k s' (g'(i \<mapsto> take (length s - length s') s)))"

text \<open>A match that starts at the first character of \<open>s\<close>; the result is the groups.\<close>

definition match_at :: "regex \<Rightarrow> string \<Rightarrow> groups option" where
  "match_at r s = rmatch r s Map.empty (\<lambda>s' g. Some g)"

text \<open>\<^verbatim>\<open>re.search\<close>: the match at the leftmost position that has one.\<close>

fun search :: "regex \<Rightarrow> string \<Rightarrow> groups option" where
  "search r [] = match_at r []"
| "search r (x # xs) =
     (case match_at r (x # xs) of Some g \<Rightarrow> Some g | None \<Rightarrow> search r xs)"

text \<open>\<^verbatim>\<open>r'\((\d+h\s*)?(\d+m)\s*(\d+s)?,'\<close>\<close>

definition duration_re :: regex where
  "duration_re =
     Seq (Lit CHR ''('')
      (Seq (Opt (Grp 1 (Seq (Plus Digit) (Seq (Lit CHR ''h'') (Star Space)))))
       (Seq (Grp 2 (Seq (Plus Digit) (Lit CHR ''m'')))
        (Seq (Star Space)
         (Seq (Opt (Grp 3 (Seq (Plus Digit) (Lit CHR ''s''))))
          (Lit CHR '','')))))"

section \<open>parse_duration\<close>

text \<open>
  One summand of \<^verbatim>\<open>total_seconds\<close>: nothing is added for a group that did not take
  part in the match or is empty, otherwise
  \<^verbatim>\<open>int(group.replace(unit, '').strip()) * factor\<close>.
\<close>

definition add_part :: "string option \<Rightarrow> char \<Rightarrow> int \<Rightarrow> int \<Rightarrow> py_exn + int" where
  "add_part grp unit factor total_seconds =
     (case grp of
        None \<Rightarrow> Inr total_seconds
      | Some t \<Rightarrow>
          if t = [] then Inr total_seconds
          else (case py_int_str (strip (remove_chr unit t)) of
                  Inl e \<Rightarrow> Inl e
                | Inr n \<Rightarrow> Inr (total_seconds + n * factor)))"

definition parse_duration :: "string \<Rightarrow> py_exn + int option" where
  "parse_duration title =
     (case search duration_re title of
        None \<Rightarrow> Inr None
      | Some g \<Rightarrow>
          (case add_part (g 1) CHR ''h'' 3600 0 of
             Inl e \<Rightarrow> Inl e
           | Inr t1 \<Rightarrow>
               (case add_part (g 2) CHR ''m'' 60 t1 of
                  Inl e \<Rightarrow> Inl e
                | Inr t2 \<Rightarrow>
                    (case add_part (g 3) CHR ''s'' 1 t2 of
                       Inl e \<Rightarrow> Inl e
                     | Inr t3 \<Rightarrow> Inr (Some t3)))))"

section \<open>External processes and printed lines\<close>

text \<open>
  The result of one \<^verbatim>\<open>subprocess.run(cmd, capture_output=True, text=True, timeout=t)\<close>:
  the process completed with a return code, its standard output and its error output, or
  the call raised. The type of the standard output is a parameter: for \<^verbatim>\<open>ffprobe\<close> it
  is what \<^verbatim>\<open>float(result.stdout.strip())\<close> gives, a float or the exception raised by
  \<^verbatim>\<open>float\<close>.
\<close>

datatype 'a proc = Completed int 'a string | Raised py_exn

text \<open>
  One argument of a command line: a string, \<^verbatim>\<open>str(n)\<close> of a number, or
  \<^verbatim>\<open>str(Path(d) / f)\<close>.
\<close>

datatype arg = Str string | Str_num pynum | Str_path string string

text \<open>What the run does, in order: the lines it prints and the processes it starts.\<close>

datatype event =
    Run_ffprobe "arg list"
  | Run_ffmpeg "arg list"
  | Could_not_get_duration py_exn
  | FFmpeg_error string
  | Timeout_extracting
  | Error py_exn
  | Skipping_missing nat nat
  | Exists nat nat string
  | Processing nat nat string
  | Duration_seeking pynum pynum
  | Trying_to_detect
  | Detected_seeking pynum pynum
  | Using_fallback
  | Saved string

section \<open>get_video_duration\<close>

definition ffprobe_cmd :: "string \<Rightarrow> arg list" where
  "ffprobe_cmd url =
     [Str ''ffprobe'', Str ''-v'', Str ''error'', Str ''-show_entries'', Str ''format=duration'',
      Str ''-of'', Str ''default=noprint_wrappers=1:nokey=1'', Str url]"

text \<open>The body of the \<^verbatim>\<open>try\<close>: \<open>Inr None\<close> stands for falling out of it.\<close>

definition get_video_duration_try ::
  "(arg list \<Rightarrow> nat \<Rightarrow> (py_exn + pyfloat) proc) \<Rightarrow> string \<Rightarrow> py_exn + pyfloat option" where
  "get_video_duration_try run url =
     (case run (ffprobe_cmd url) 30 of
        Raised e \<Rightarrow> Inl e
      | Completed returncode out err \<Rightarrow>
          if returncode = 0 then (case out of Inl e \<Rightarrow> Inl e | Inr d \<Rightarrow> Inr (Some d))
          else Inr None)"

definition get_video_duration ::
  "(arg list \<Rightarrow> nat \<Rightarrow> (py_exn + pyfloat) proc) \<Rightarrow> string \<Rightarrow> pyfloat option \<times> event list" where
  "get_video_duration run url =
     (case get_video_duration_try run url of
        Inl e \<Rightarrow> (None, [Run_ffprobe (ffprobe_cmd url), Could_not_get_duration e])
      | Inr d \<Rightarrow> (d, [Run_ffprobe (ffprobe_cmd url)]))"

section \<open>generate_thumbnail\<close>

text \<open>Truth value of \<^verbatim>\<open>seek_time\<close> in \<^verbatim>\<open>if seek_time:\<close>.\<close>

definition truthy :: "pynum option \<Rightarrow> bool" where
  "truthy x = (case x of None \<Rightarrow> False | Some n \<Rightarrow> num_truthy n)"

definition generate_thumbnail_cmd :: "string \<Rightarrow> arg \<Rightarrow> pynum option \<Rightarrow> arg list" where
  "generate_thumbnail_cmd video_url output_path seek_time =
     [Str ''ffmpeg'', Str ''-y''] @
     (case seek_time of
        None \<Rightarrow> []
      | Some t \<Rightarrow> if num_truthy t then [Str ''-ss'', Str_num t] else []) @
     [Str ''-i'', Str video_url, Str ''-vframes'', Str ''1'', Str ''-q:v'', Str ''2'',
      Str ''-vf'', Str ''scale=320:-1'', output_path]"

text \<open>The body of the \<^verbatim>\<open>try\<close>.\<close>

definition generate_thumbnail_try ::
  "(arg list \<Rightarrow> nat \<Rightarrow> string proc) \<Rightarrow> string \<Rightarrow> arg \<Rightarrow> pynum option \<Rightarrow>
     py_exn + bool \<times> event list" where
  "generate_thumbnail_try run video_url output_path seek_time =
     (case run (generate_thumbnail_cmd video_url output_path seek_time) 60 of
        Raised e \<Rightarrow> Inl e
      | Completed returncode out err \<Rightarrow>
          if returncode = 0 then Inr (True, [])
          else Inr (False, [FFmpeg_error (take 200 err)]))"

text \<open>
  The \<^verbatim>\<open>try\<close> with its two handlers. \<open>Inl\<close> would be an exception that leaves the
  function.
\<close>

definition generate_thumbnail ::
  "(arg list \<Rightarrow> nat \<Rightarrow> string proc) \<Rightarrow> string \<Rightarrow> arg \<Rightarrow> pynum option \<Rightarrow>
     py_exn + bool \<times> event list" where
  "generate_thumbnail run video_url output_path seek_time =
     (let started = Run_ffmpeg (generate_thumbnail_cmd video_url output_path seek_time)
      in case generate_thumbnail_try run video_url output_path seek_time of
           Inr (ok, printed) \<Rightarrow> Inr (ok, started # printed)
         | Inl TimeoutExpired \<Rightarrow> Inr (False, [started, Timeout_extracting])
         | Inl e \<Rightarrow> Inr (False, [started, Error e]))"

section \<open>The manifest and deduplication\<close>

text \<open>
  A JSON value as far as \<^verbatim>\<open>int(...)\<close> tells values apart; an array or an object
  raises \<^verbatim>\<open>TypeError\<close> whatever it holds.
\<close>

datatype json = JNull | JBool bool | JInt int | JFloat pyfloat | JStr string | JArray | JObject

fun py_int :: "json \<Rightarrow> py_exn + int" where
  "py_int JNull = Inl TypeError"
| "py_int (JBool b) = Inr (if b then 1 else 0)"
| "py_int (JInt i) = Inr i"
| "py_int (JFloat (Fin r)) = Inr (if 0 \<le> r then \<lfloor>r\<rfloor> else \<lceil>r\<rceil>)"
| "py_int (JFloat PosInf) = Inl OverflowError"
| "py_int (JFloat NegInf) = Inl OverflowError"
| "py_int (JFloat NaN) = Inl ValueError"
| "py_int (JStr s) = py_int_str s"
| "py_int JArray = Inl TypeError"
| "py_int JObject = Inl TypeError"

text \<open>
  One entry of \<^verbatim>\<open>mp4_files\<close>. A field is \<open>None\<close> when \<^verbatim>\<open>video.get\<close> gives
  \<^verbatim>\<open>None\<close>; \<open>identifier_field\<close>, \<open>url\<close>, \<open>filename\<close> and \<open>title\<close> are strings when
  they are there, as in the VideoRecord of the specification, \<open>size_field\<close> is any
  JSON value.
\<close>

record video =
  identifier_field :: "string option"
  url :: "string option"
  filename :: "string option"
  title :: "string option"
  size_field :: "json option"

text \<open>\<^verbatim>\<open>video.get('size', 0)\<close>\<close>

definition get_size :: "video \<Rightarrow> json" where
  "get_size video = (case size_field video of None \<Rightarrow> JInt 0 | Some x \<Rightarrow> x)"

text \<open>
  \<^verbatim>\<open>videos_by_id\<close> is a dictionary in insertion order: an association list in which
  \<open>AList.update\<close> replaces the value of a key in place and appends a new key.
  One pass of the loop of lines 131 to 143:
\<close>

definition dedup_step :: "(string \<times> video) list \<Rightarrow> video \<Rightarrow> py_exn + (string \<times> video) list" where
  "dedup_step videos_by_id video =
     (case identifier_field video of
        None \<Rightarrow> Inr videos_by_id
      | Some ident \<Rightarrow>
          if ident = [] then Inr videos_by_id
          else
            (case map_of videos_by_id ident of
               None \<Rightarrow> Inr (AList.update ident video videos_by_id)
             | Some current \<Rightarrow>
                 (case py_int (get_size current) of
                    Inl e \<Rightarrow> Inl e
                  | Inr current_size \<Rightarrow>
                      (case py_int (get_size video) of
                         Inl e \<Rightarrow> Inl e
                       | Inr new_size \<Rightarrow>
                           if new_size < current_size \<and> new_size > 0
                           then Inr (AList.update ident video videos_by_id)
                           else Inr videos_by_id))))"

fun dedup :: "(string \<times> video) list \<Rightarrow> video list \<Rightarrow> py_exn + (string \<times> video) list" where
  "dedup videos_by_id [] = Inr videos_by_id"
| "dedup videos_by_id (video # rest) =
     (case dedup_step videos_by_id video of
        Inl e \<Rightarrow> Inl e
      | Inr d \<Rightarrow> dedup d rest)"

text \<open>\<^verbatim>\<open>videos = list(videos_by_id.values())\<close>\<close>

definition deduplicate :: "video list \<Rightarrow> py_exn + video list" where
  "deduplicate all_videos =
     (case dedup [] all_videos of Inl e \<Rightarrow> Inl e | Inr d \<Rightarrow> Inr (map snd d))"

section \<open>The loop over the videos\<close>

text \<open>
  What the program is run in:
  \<^item> \<open>ffmpeg_version\<close>: the result of \<^verbatim>\<open>subprocess.run(['ffmpeg', '-version'], ...)\<close>;
  \<^item> \<open>manifest\<close>: \<^verbatim>\<open>mp4_downloads.json\<close> is missing, or opening and parsing it raises,
    or it loads and \<^verbatim>\<open>data.get('mp4_files', [])\<close> is the given list of records;
  \<^item> \<open>mkdir\<close>: the exception of \<^verbatim>\<open>thumb_dir.mkdir(exist_ok=True)\<close>, if it raises;
  \<^item> \<open>thumb_exists i f\<close>: \<^verbatim>\<open>thumb_path.exists()\<close> for the file name \<open>f\<close>;
  \<^item> \<open>ffprobe i cmd t\<close> and \<open>ffmpeg i cmd t\<close>: \<^verbatim>\<open>subprocess.run\<close> of the command
    \<open>cmd\<close> with the timeout \<open>t\<close>.

  The answers of the file system and of the two tools may differ from one pass of the loop
  to the next, so they take the number \<open>i\<close> of the pass.
\<close>

datatype manifest_file = No_file | Load_error py_exn | Loaded "video list"

record env =
  ffmpeg_version :: "string proc"
  manifest :: manifest_file
  mkdir :: "py_exn option"
  thumb_exists :: "nat \<Rightarrow> string \<Rightarrow> bool"
  ffprobe :: "nat \<Rightarrow> arg list \<Rightarrow> nat \<Rightarrow> (py_exn + pyfloat) proc"
  ffmpeg :: "nat \<Rightarrow> arg list \<Rightarrow> nat \<Rightarrow> string proc"

record counters =
  success_count :: nat
  failed_count :: nat
  skipped_count :: nat
  trace :: "event list"

text \<open>Lines 193 to 202, the \<^verbatim>\<open>else\<close> branch: probe, then the fallback.\<close>

definition probe_seek ::
  "(arg list \<Rightarrow> nat \<Rightarrow> (py_exn + pyfloat) proc) \<Rightarrow> string \<Rightarrow> pynum \<times> event list" where
  "probe_seek run video_url =
     (case get_video_duration run video_url of
        (duration, evs) \<Rightarrow>
          if truthy (map_option PFloat duration)
          then (case duration of
                  Some d \<Rightarrow>
                    (div2 (PFloat d),
                     Trying_to_detect # evs @ [Detected_seeking (PFloat d) (div2 (PFloat d))])
                | None \<Rightarrow> (PInt 30, Trying_to_detect # evs @ [Using_fallback]))
          else (PInt 30, Trying_to_detect # evs @ [Using_fallback]))"

text \<open>Lines 187 to 202: the seek time from the duration parsed from the title.\<close>

definition seek_time_of ::
  "(arg list \<Rightarrow> nat \<Rightarrow> (py_exn + pyfloat) proc) \<Rightarrow> string \<Rightarrow> int option \<Rightarrow> pynum \<times> event list" where
  "seek_time_of run video_url duration =
     (if truthy (map_option PInt duration)
      then (case duration of
              Some d \<Rightarrow> (div2 (PInt d), [Duration_seeking (PInt d) (div2 (PInt d))])
            | None \<Rightarrow> probe_seek run video_url)
      else probe_seek run video_url)"

definition skip :: "event \<Rightarrow> counters \<Rightarrow> counters" where
  "skip line st = st\<lparr>skipped_count := skipped_count st + 1, trace := trace st @ [line]\<rparr>"

text \<open>One pass of the loop of lines 161 to 209.\<close>

definition process_video :: "env \<Rightarrow> nat \<Rightarrow> nat \<Rightarrow> video \<Rightarrow> counters \<Rightarrow> py_exn + counters" where
  "process_video e total_count i video st =
     (case (url video, identifier_field video) of
        (Some u, Some ident) \<Rightarrow>
          if u = [] \<or> ident = [] then Inr (skip (Skipping_missing i total_count) st)
          else
            let thumb_filename = ident @ ''.jpg'';
                ttl = (case title video of None \<Rightarrow> [] | Some t \<Rightarrow> t)
            in if thumb_exists e i thumb_filename
               then Inr (skip (Exists i total_count thumb_filename) st)
               else
                 (case parse_duration ttl of
                    Inl x \<Rightarrow> Inl x
                  | Inr duration \<Rightarrow>
                      (case seek_time_of (ffprobe e i) u duration of
                         (seek_time, evs) \<Rightarrow>
                           (case generate_thumbnail (ffmpeg e i) u
                                   (Str_path ''thumbnails'' thumb_filename) (Some seek_time) of
                              Inl x \<Rightarrow> Inl x
                            | Inr (ok, evs') \<Rightarrow>
                                let tr = trace st @ Processing i total_count (take 60 ttl) # evs @ evs'
                                in if ok
                                   then Inr (st\<lparr>success_count := success_count st + 1,
                                                trace := tr @ [Saved thumb_filename]\<rparr>)
                                   else Inr (st\<lparr>failed_count := failed_count st + 1,
                                                trace := tr\<rparr>))))
      | _ \<Rightarrow> Inr (skip (Skipping_missing i total_count) st))"

fun process_videos :: "env \<Rightarrow> nat \<Rightarrow> nat \<Rightarrow> video list \<Rightarrow> counters \<Rightarrow> py_exn + counters" where
  "process_videos e total_count i [] st = Inr st"
| "process_videos e total_count i (video # rest) st =
     (case process_video e total_count i video st of
        Inl x \<Rightarrow> Inl x
      | Inr st' \<Rightarrow> process_videos e total_count (i + 1) rest st')"

section \<open>main\<close>

record summary =
  total_videos :: nat
  successful :: nat
  failed :: nat
  skipped :: nat

text \<open>
  How the process ends: \<^verbatim>\<open>sys.exit(n)\<close>, an exception that nothing catches, or the
  end of \<^verbatim>\<open>main\<close> after the summary.
\<close>

datatype outcome = Exit nat | Uncaught py_exn | Finished summary


text \<open>
  Lines 108 to 113: \<^verbatim>\<open>check=True\<close> turns a return code other than 0 into
  \<^verbatim>\<open>CalledProcessError\<close>; that and \<^verbatim>\<open>FileNotFoundError\<close> are caught. The result is
  the way the check ends the run, if it does.
\<close>

definition check_ffmpeg :: "string proc \<Rightarrow> outcome option" where
  "check_ffmpeg r =
     (case r of
        Completed returncode out err \<Rightarrow> if returncode = 0 then None else Some (Exit 1)
      | Raised x \<Rightarrow>
          if x = CalledProcessError \<or> x = FileNotFoundError then Some (Exit 1)
          else Some (Uncaught x))"

text \<open>
  \<open>main\<close> gives the way the process ends and what it did in the loop. A pass of the
  loop has the type of a computation that may raise, since it calls \<open>parse_duration\<close>
  and \<open>generate_thumbnail\<close>; lemma \<open>process_videos_total\<close> below shows that it never
  does.
\<close>

definition main :: "env \<Rightarrow> outcome \<times> event list" where
  "main e =
     (case check_ffmpeg (ffmpeg_version e) of
        Some out \<Rightarrow> (out, [])
      | None \<Rightarrow>
          (case manifest e of
             No_file \<Rightarrow> (Exit 1, [])
           | Load_error x \<Rightarrow> (Uncaught x, [])
           | Loaded all_videos \<Rightarrow>
               (case deduplicate all_videos of
                  Inl x \<Rightarrow> (Uncaught x, [])
                | Inr videos \<Rightarrow>
                    (case mkdir e of
                       Some x \<Rightarrow> (Uncaught x, [])
                     | None \<Rightarrow>
                         (case process_videos e (length videos) 1 videos
                                 \<lparr>success_count = 0, failed_count = 0, skipped_count = 0,
                                  trace = []\<rparr> of
                            Inl x \<Rightarrow> (Uncaught x, [])
                          | Inr st \<Rightarrow>
                              (Finished \<lparr>total_videos = length videos,
                                         successful = success_count st,
                                         failed = failed_count st,
                                         skipped = skipped_count st\<rparr>,
                               trace st))))))"

text \<open>
  The command that the loop builds for a record with the URL \<open>u\<close> and the identifier
  \<open>ident\<close>: the output path is \<^verbatim>\<open>thumb_dir / (identifier + '.jpg')\<close>.
\<close>

definition thumb_cmd :: "string \<Rightarrow> string \<Rightarrow> pynum \<Rightarrow> arg list" where
  "thumb_cmd u ident seek =
     generate_thumbnail_cmd u (Str_path ''thumbnails'' (ident @ ''.jpg'')) (Some seek)"

text \<open>
  The invariant of \<^verbatim>\<open>videos_by_id\<close> for the proofs: every value is a record of the
  manifest \<open>vs\<close> and stands under its own identifier, which is not empty.
\<close>

definition keyed :: "(string \<times> video) list \<Rightarrow> video list \<Rightarrow> bool" where
  "keyed d vs = list_all (\<lambda>(k, v). v \<in> set vs \<and> identifier_field v = Some k \<and> k \<noteq> []) d"

text \<open>
  Concrete inputs for the examples: a record with an identifier, a URL and a size, and
  an environment in which \<^verbatim>\<open>ffmpeg\<close> is installed, no thumbnail exists yet, every probe
  runs into its timeout and every extraction exits with 1.
\<close>

definition record_of :: "string option \<Rightarrow> string option \<Rightarrow> json option \<Rightarrow> video" where
  "record_of ident u sz =
     \<lparr>identifier_field = ident, url = u, filename = None, title = None, size_field = sz\<rparr>"

definition failing_env :: "manifest_file \<Rightarrow> env" where
  "failing_env m =
     \<lparr>ffmpeg_version = Completed 0 [] [], manifest = m, mkdir = None,
      thumb_exists = (\<lambda>i f. False),
      ffprobe = (\<lambda>i c t. Raised TimeoutExpired),
      ffmpeg = (\<lambda>i c t. Completed 1 [] ''no such file'')\<rparr>"

section \<open>The duration token of the specification\<close>

text \<open>
  The specification describes the part of a title that carries the duration as a token of
  the shape \<^verbatim>\<open>(<Nh ><Nm> <Ns>,\<close>: an opening parenthesis, an optional number of hours
  followed by \<^verbatim>\<open>h\<close> and white space, a number of minutes followed by \<^verbatim>\<open>m\<close>, white
  space, an optional number of seconds followed by \<^verbatim>\<open>s\<close>, and a comma. The definitions
  of this section follow these words, not the code. \<open>token ho md ws so\<close> is the token
  with the hours \<open>ho\<close> (the digits and the white space after the \<^verbatim>\<open>h\<close>, if there are
  hours), the digits \<open>md\<close> of the minutes, the white space \<open>ws\<close> and the digits \<open>so\<close> of
  the seconds, if there are seconds; \<open>token_seconds\<close> is \<open>H*3600 + M*60 + S\<close>.
\<close>

definition digits :: "string \<Rightarrow> bool" where
  "digits s = (s \<noteq> [] \<and> list_all is_digit s)"

definition spaces :: "string \<Rightarrow> bool" where
  "spaces s = list_all is_space s"

definition hours_part :: "(string \<times> string) option \<Rightarrow> string" where
  "hours_part ho = (case ho of None \<Rightarrow> [] | Some (hs, w) \<Rightarrow> hs @ ''h'' @ w)"

definition seconds_part :: "string option \<Rightarrow> string" where
  "seconds_part so = (case so of None \<Rightarrow> [] | Some sd \<Rightarrow> sd @ ''s'')"

definition token :: "(string \<times> string) option \<Rightarrow> string \<Rightarrow> string \<Rightarrow> string option \<Rightarrow> string" where
  "token ho md ws so = ''('' @ hours_part ho @ md @ ''m'' @ ws @ seconds_part so @ '',''"

definition token_ok :: "(string \<times> string) option \<Rightarrow> string \<Rightarrow> string \<Rightarrow> string option \<Rightarrow> bool" where
  "token_ok ho md ws so =
     ((case ho of None \<Rightarrow> True | Some (hs, w) \<Rightarrow> digits hs \<and> spaces w) \<and>
      digits md \<and> spaces ws \<and>
      (case so of None \<Rightarrow> True | Some sd \<Rightarrow> digits sd))"

definition token_seconds :: "(string \<times> string) option \<Rightarrow> string \<Rightarrow> string option \<Rightarrow> int" where
  "token_seconds ho md so =
     (case ho of None \<Rightarrow> 0 | Some (hs, w) \<Rightarrow> dec hs) * 3600 + dec md * 60 +
     (case so of None \<Rightarrow> 0 | Some sd \<Rightarrow> dec sd)"


text \<open>The three groups of a match of the token.\<close>

definition token_groups :: "(string \<times> string) option \<Rightarrow> string \<Rightarrow> string option \<Rightarrow> groups \<Rightarrow> bool" where
  "token_groups ho md so g =
     (g 1 = map_option (\<lambda>(hs, w). hs @ ''h'' @ w) ho \<and> g 2 = Some (md @ ''m'') \<and>
      g 3 = map_option (\<lambda>sd. sd @ ''s'') so)"

section \<open>The pattern without backtracking\<close>

text \<open>
  Auxiliary functions for the proofs: what the pattern does on a string, written with
  \<open>takeWhile\<close> and \<open>dropWhile\<close>. \<open>unit_num u s\<close> reads \<^verbatim>\<open>\d+\<close> and the character
  \<open>u\<close>; the other functions follow the pattern from its end to its start.
\<close>

definition unit_num :: "char \<Rightarrow> string \<Rightarrow> (string \<times> string) option" where
  "unit_num u s =
     (case dropWhile is_digit s of
        [] \<Rightarrow> None
      | c # r \<Rightarrow> if takeWhile is_digit s \<noteq> [] \<and> c = u then Some (takeWhile is_digit s, r) else None)"

definition comma_end :: "string \<Rightarrow> groups \<Rightarrow> groups option" where
  "comma_end t g = (case t of [] \<Rightarrow> None | c # r \<Rightarrow> if c = CHR '','' then Some g else None)"

definition seconds_end :: "string \<Rightarrow> groups \<Rightarrow> groups option" where
  "seconds_end t g =
     (case unit_num CHR ''s'' t of
        None \<Rightarrow> comma_end t g
      | Some (sd, r) \<Rightarrow> comma_end r (g(3 \<mapsto> sd @ ''s'')))"

definition minutes_end :: "string \<Rightarrow> groups \<Rightarrow> groups option" where
  "minutes_end t g =
     (case unit_num CHR ''m'' t of
        None \<Rightarrow> None
      | Some (md, r) \<Rightarrow> seconds_end (dropWhile is_space r) (g(2 \<mapsto> md @ ''m'')))"

definition hours_start :: "string \<Rightarrow> groups option" where
  "hours_start t =
     (case unit_num CHR ''h'' t of
        None \<Rightarrow> minutes_end t Map.empty
      | Some (hs, r) \<Rightarrow>
          minutes_end (dropWhile is_space r) [1 \<mapsto> hs @ ''h'' @ takeWhile is_space r])"

definition token_match :: "string \<Rightarrow> groups option" where
  "token_match s = (case s of [] \<Rightarrow> None | c # t \<Rightarrow> if c = CHR ''('' then hours_start t else None)"

section \<open>Properties of the pattern\<close>

lemma not_digit_units [simp]:
  "\<not> is_digit CHR ''h''" "\<not> is_digit CHR ''m''" "\<not> is_digit CHR ''s''"
  "\<not> is_digit CHR '',''" "\<not> is_digit CHR ''(''" "\<not> is_digit CHR ''_''"
  "\<not> is_digit CHR ''-''" "\<not> is_digit CHR ''+''"
  by (simp_all add: is_digit_def)

lemma not_space_units [simp]:
  "\<not> is_space CHR ''h''" "\<not> is_space CHR ''m''" "\<not> is_space CHR ''s''"
  "\<not> is_space CHR '',''" "\<not> is_space CHR ''(''"
  by (simp_all add: is_space_def)

lemma digit_not_space: "is_digit c \<Longrightarrow> \<not> is_space c"
  by (auto simp: is_digit_def is_space_def Let_def)

lemma cls_mem_fun [simp]: "cls_mem Digit = is_digit" "cls_mem Space = is_space"
  by (rule ext, simp)+

lemma many_greedy:
  "(\<And>x xs. p x \<Longrightarrow> k (x # xs) = None) \<Longrightarrow>
   many p lo s k = (if lo \<le> length (takeWhile p s) then k (dropWhile p s) else None)"
proof (induction s arbitrary: lo)
  case Nil
  then show ?case by simp
next
  case (Cons x xs)
  show ?case
  proof (cases "p x")
    case True
    have "many p (lo - 1) xs k = (if lo - 1 \<le> length (takeWhile p xs) then k (dropWhile p xs) else None)"
      using Cons.IH [OF Cons.prems] by simp
    with True Cons.prems show ?thesis
      by (auto split: option.splits)
  next
    case False
    then show ?thesis by simp
  qed
qed

lemma digits_then_lit:
  assumes "\<not> is_digit u"
  shows "many is_digit (Suc 0) s (\<lambda>s'. case s' of [] \<Rightarrow> None | x # xs \<Rightarrow> if x = u then k xs else None) =
     (case unit_num u s of None \<Rightarrow> None | Some (ds, r) \<Rightarrow> k r)"
proof -
  let ?k = "\<lambda>s'. case s' of [] \<Rightarrow> None | x # xs \<Rightarrow> if x = u then k xs else None"
  have "many is_digit (Suc 0) s ?k =
        (if Suc 0 \<le> length (takeWhile is_digit s) then ?k (dropWhile is_digit s) else None)"
    by (rule many_greedy) (use assms in auto)
  also have "\<dots> = (case unit_num u s of None \<Rightarrow> None | Some (ds, r) \<Rightarrow> k r)"
  proof (cases "dropWhile is_digit s")
    case Nil
    show ?thesis unfolding unit_num_def Nil by simp
  next
    case (Cons c r)
    show ?thesis unfolding unit_num_def Cons
      by (cases "takeWhile is_digit s") simp_all
  qed
  finally show ?thesis .
qed

lemma spaces_then:
  assumes "\<And>x xs. is_space x \<Longrightarrow> k (x # xs) = None"
  shows "many is_space 0 s k = k (dropWhile is_space s)"
proof -
  have "many is_space 0 s k =
        (if 0 \<le> length (takeWhile is_space s) then k (dropWhile is_space s) else None)"
    using assms by (rule many_greedy)
  then show ?thesis by simp
qed

lemma unit_num_D:
  assumes "unit_num u s = Some (ds, r)"
  shows "ds \<noteq> []" "list_all is_digit ds" "s = ds @ u # r"
proof -
  from assms obtain c where c: "dropWhile is_digit s = c # r" "takeWhile is_digit s \<noteq> []" "c = u"
    "ds = takeWhile is_digit s"
    by (auto simp: unit_num_def split: list.splits if_splits)
  show "ds \<noteq> []" using c by simp
  show "list_all is_digit ds" using c by (simp add: list_all_iff) (meson set_takeWhileD)
  have "s = takeWhile is_digit s @ dropWhile is_digit s" by simp
  then show "s = ds @ u # r" using c by simp
qed


lemma unit_num_take:
  assumes "unit_num u t = Some (ds, r)"
  shows "take (length t - length r) t = ds @ [u]"
  using unit_num_D(3) [OF assms] by simp

lemma unit_num_digit_start:
  assumes "unit_num u t = Some (ds, r)"
  shows "\<exists>c t'. t = c # t' \<and> is_digit c"
proof -
  note D = unit_num_D [OF assms]
  from D(1) obtain c ds' where "ds = c # ds'" by (cases ds) auto
  with D(2,3) show ?thesis by simp
qed

lemma comma_end_digit: "is_digit c \<Longrightarrow> comma_end (c # t) g = None"
  by (auto simp: comma_end_def)

lemma re_seconds:
  "rmatch (Seq (Opt (Grp 3 (Seq (Plus Digit) (Lit CHR ''s'')))) (Lit CHR '','')) t g (\<lambda>s' g. Some g)
     = seconds_end t g"
proof (cases "unit_num CHR ''s'' t")
  case None
  then show ?thesis
    by (simp add: digits_then_lit seconds_end_def comma_end_def split: list.splits)
next
  case (Some a)
  obtain sd r where a: "a = (sd, r)" by (cases a)
  from Some a obtain c t' where t: "t = c # t'" "is_digit c"
    using unit_num_digit_start by blast
  have "comma_end t g = None" using t by (simp add: comma_end_digit)
  then show ?thesis using Some a unit_num_take [of "CHR ''s''" t sd r]
    by (simp add: digits_then_lit seconds_end_def comma_end_def split: list.splits option.splits)
qed

lemma unit_num_space_start: "is_space x \<Longrightarrow> unit_num u (x # xs) = None"
  by (auto simp: unit_num_def digit_not_space)

lemma seconds_end_space: "is_space x \<Longrightarrow> seconds_end (x # xs) g = None"
  by (auto simp: seconds_end_def unit_num_space_start comma_end_def)

lemma minutes_end_space: "is_space x \<Longrightarrow> minutes_end (x # xs) g = None"
  by (simp add: minutes_end_def unit_num_space_start)

lemma re_minutes:
  "rmatch (Seq (Grp 2 (Seq (Plus Digit) (Lit CHR ''m'')))
        (Seq (Star Space)
         (Seq (Opt (Grp 3 (Seq (Plus Digit) (Lit CHR ''s'')))) (Lit CHR '','')))) t g (\<lambda>s' g. Some g)
     = minutes_end t g"
proof -
  let ?S = "Seq (Opt (Grp 3 (Seq (Plus Digit) (Lit CHR ''s'')))) (Lit CHR '','')"
  let ?K = "\<lambda>(s'::string) (g::groups). Some g"
  have sp: "rmatch (Seq (Star Space) ?S) s g' ?K = seconds_end (dropWhile is_space s) g'" for s g'
  proof -
    have "rmatch (Seq (Star Space) ?S) s g' ?K = many is_space 0 s (\<lambda>s'. rmatch ?S s' g' ?K)"
      by (simp only: rmatch.simps cls_mem_fun)
    also have "\<dots> = rmatch ?S (dropWhile is_space s) g' ?K"
      by (rule spaces_then) (simp only: re_seconds seconds_end_space)
    finally show ?thesis by (simp only: re_seconds)
  qed
  have "rmatch (Seq (Grp 2 (Seq (Plus Digit) (Lit CHR ''m''))) (Seq (Star Space) ?S)) t g ?K
      = many is_digit (Suc 0) t (\<lambda>s'. case s' of [] \<Rightarrow> None | x # xs \<Rightarrow>
           if x = CHR ''m'' then rmatch (Seq (Star Space) ?S) xs (g(2 \<mapsto> take (length t - length xs) t)) ?K else None)"
    by (simp only: rmatch.simps cls_mem_fun One_nat_def)
  also have "\<dots> = (case unit_num CHR ''m'' t of None \<Rightarrow> None
       | Some (ds, r) \<Rightarrow> rmatch (Seq (Star Space) ?S) r (g(2 \<mapsto> take (length t - length r) t)) ?K)"
    by (rule digits_then_lit) simp
  also have "\<dots> = minutes_end t g"
    by (auto simp only: sp minutes_end_def unit_num_take split: option.splits)
  finally show ?thesis .
qed

lemma unit_num_other:
  assumes "unit_num u t = Some (ds, r)" "v \<noteq> u"
  shows "unit_num v t = None"
proof -
  from assms(1) have "dropWhile is_digit t = u # r"
    by (auto simp: unit_num_def split: list.splits if_splits)
  with assms(2) show ?thesis by (simp add: unit_num_def)
qed

lemma take_hours_group:
  assumes "unit_num u t = Some (ds, r)"
  shows "take (length t - length (dropWhile p r)) t = ds @ u # takeWhile p r"
proof -
  define A where "A = ds @ u # takeWhile p r"
  have t: "t = A @ dropWhile p r"
    using unit_num_D(3) [OF assms] by (simp add: A_def)
  have "take (length t - length (dropWhile p r)) t = take (length A) (A @ dropWhile p r)"
    by (simp add: t)
  also have "\<dots> = A" by simp
  finally show ?thesis unfolding A_def .
qed

lemma re_hours:
  fixes M :: regex
  assumes M: "\<And>s g. rmatch M s g (\<lambda>s' g. Some g) = minutes_end s g"
  shows "rmatch (Seq (Opt (Grp 1 (Seq (Plus Digit) (Seq (Lit CHR ''h'') (Star Space))))) M)
           t Map.empty (\<lambda>s' g. Some g) = hours_start t"
proof -
  let ?H = "Seq (Plus Digit) (Seq (Lit CHR ''h'') (Star Space))"
  let ?K = "\<lambda>(s'::string) (g::groups). Some g"
  have "rmatch (Grp 1 ?H) t Map.empty (\<lambda>s' g'. rmatch M s' g' ?K) =
      many is_digit (Suc 0) t (\<lambda>s'. case s' of [] \<Rightarrow> None | x # xs \<Rightarrow>
         if x = CHR ''h''
         then many is_space 0 xs (\<lambda>s''. minutes_end s'' [1 \<mapsto> take (length t - length s'') t])
         else None)"
    by (simp only: rmatch.simps cls_mem_fun One_nat_def M)
  also have "\<dots> = (case unit_num CHR ''h'' t of None \<Rightarrow> None
     | Some (hs, r) \<Rightarrow>
         many is_space 0 r (\<lambda>s''. minutes_end s'' [1 \<mapsto> take (length t - length s'') t]))"
    by (rule digits_then_lit) simp
  also have "\<dots> = (case unit_num CHR ''h'' t of None \<Rightarrow> None
     | Some (hs, r) \<Rightarrow>
         minutes_end (dropWhile is_space r)
           [1 \<mapsto> take (length t - length (dropWhile is_space r)) t])"
    by (simp add: spaces_then minutes_end_space split: option.splits)
  also have "\<dots> = (case unit_num CHR ''h'' t of None \<Rightarrow> None
     | Some (hs, r) \<Rightarrow>
         minutes_end (dropWhile is_space r) [1 \<mapsto> hs @ ''h'' @ takeWhile is_space r])"
    by (simp add: take_hours_group split: option.splits)
  finally have hours: "rmatch (Grp 1 ?H) t Map.empty (\<lambda>s' g'. rmatch M s' g' ?K) =
      (case unit_num CHR ''h'' t of None \<Rightarrow> None
       | Some (hs, r) \<Rightarrow>
           minutes_end (dropWhile is_space r) [1 \<mapsto> hs @ ''h'' @ takeWhile is_space r])" .
  have "rmatch (Seq (Opt (Grp 1 ?H)) M) t Map.empty ?K =
     (case rmatch (Grp 1 ?H) t Map.empty (\<lambda>s' g'. rmatch M s' g' ?K) of
        Some r \<Rightarrow> Some r | None \<Rightarrow> minutes_end t Map.empty)"
    by (simp only: rmatch.simps M)
  also have "\<dots> = hours_start t"
    unfolding hours
    by (auto simp: hours_start_def minutes_end_def unit_num_other split: option.splits)
  finally show ?thesis .
qed

lemma re_token: "match_at duration_re s = token_match s"
proof -
  define M where "M = Seq (Grp 2 (Seq (Plus Digit) (Lit CHR ''m'')))
        (Seq (Star Space)
         (Seq (Opt (Grp 3 (Seq (Plus Digit) (Lit CHR ''s'')))) (Lit CHR '','')))"
  have M: "rmatch M s g (\<lambda>s' g. Some g) = minutes_end s g" for s g
    unfolding M_def by (rule re_minutes)
  have "match_at duration_re s =
      (case s of [] \<Rightarrow> None | x # xs \<Rightarrow>
         if x = CHR ''(''
         then rmatch (Seq (Opt (Grp 1 (Seq (Plus Digit) (Seq (Lit CHR ''h'') (Star Space))))) M)
                xs Map.empty (\<lambda>s' g. Some g)
         else None)"
    unfolding match_at_def duration_re_def M_def [symmetric]
    by (simp only: rmatch.simps(1,4))
  then show ?thesis
    by (simp only: re_hours [of M, OF M] token_match_def)
qed


lemma unit_num_Nil: "unit_num u [] = None"
  by (simp add: unit_num_def)


lemma digits_start: "digits ds \<Longrightarrow> \<exists>c r. ds = c # r \<and> is_digit c"
  by (cases ds) (simp_all add: digits_def)







lemma unit_num_digitsD:
  assumes "unit_num u t = Some (ds, r)"
  shows "digits ds" "t = ds @ u # r"
  using unit_num_D [OF assms] by (simp_all add: digits_def)

lemma seconds_end_SomeD:
  assumes "seconds_end t g = Some g'"
  shows "\<exists>so post. (case so of None \<Rightarrow> True | Some sd \<Rightarrow> digits sd) \<and>
           t = seconds_part so @ CHR '','' # post \<and>
           g' = (case so of None \<Rightarrow> g | Some sd \<Rightarrow> g(3 \<mapsto> sd @ ''s''))"
proof (cases "unit_num CHR ''s'' t")
  case None
  with assms have "comma_end t g = Some g'" by (simp add: seconds_end_def)
  then obtain post where "t = CHR '','' # post" "g' = g"
    by (auto simp: comma_end_def split: list.splits if_splits)
  then have "(case None of None \<Rightarrow> True | Some sd \<Rightarrow> digits sd) \<and>
           t = seconds_part None @ CHR '','' # post \<and>
           g' = (case None of None \<Rightarrow> g | Some sd \<Rightarrow> g(3 \<mapsto> sd @ ''s''))"
    by (simp add: seconds_part_def)
  then show ?thesis by blast
next
  case (Some a)
  obtain sd r where a: "a = (sd, r)" by (cases a)
  note D = unit_num_digitsD [OF Some [unfolded a]]
  from assms Some a have "comma_end r (g(3 \<mapsto> sd @ ''s'')) = Some g'"
    by (simp add: seconds_end_def)
  then obtain post where "r = CHR '','' # post" "g' = g(3 \<mapsto> sd @ ''s'')"
    by (auto simp: comma_end_def split: list.splits if_splits)
  with D have "(case Some sd of None \<Rightarrow> True | Some sd \<Rightarrow> digits sd) \<and>
           t = seconds_part (Some sd) @ CHR '','' # post \<and>
           g' = (case Some sd of None \<Rightarrow> g | Some sd \<Rightarrow> g(3 \<mapsto> sd @ ''s''))"
    by (simp add: seconds_part_def)
  then show ?thesis by blast
qed

lemma minutes_end_SomeD:
  assumes "minutes_end t g = Some g'"
  shows "\<exists>md ws so post. digits md \<and> spaces ws \<and>
           (case so of None \<Rightarrow> True | Some sd \<Rightarrow> digits sd) \<and>
           t = md @ CHR ''m'' # ws @ seconds_part so @ CHR '','' # post \<and>
           g' = (case so of None \<Rightarrow> g(2 \<mapsto> md @ ''m'')
                 | Some sd \<Rightarrow> g(2 \<mapsto> md @ ''m'', 3 \<mapsto> sd @ ''s''))"
proof -
  from assms obtain md r where u: "unit_num CHR ''m'' t = Some (md, r)"
    and s: "seconds_end (dropWhile is_space r) (g(2 \<mapsto> md @ ''m'')) = Some g'"
    by (auto simp: minutes_end_def split: option.splits)
  note D = unit_num_digitsD [OF u]
  from seconds_end_SomeD [OF s] obtain so post where
    so: "case so of None \<Rightarrow> True | Some sd \<Rightarrow> digits sd"
    and r: "dropWhile is_space r = seconds_part so @ CHR '','' # post"
    and g': "g' = (case so of None \<Rightarrow> g(2 \<mapsto> md @ ''m'') | Some sd \<Rightarrow> g(2 \<mapsto> md @ ''m'', 3 \<mapsto> sd @ ''s''))"
    by blast
  define ws where "ws = takeWhile is_space r"
  have "spaces ws" by (simp add: ws_def spaces_def list_all_iff) (meson set_takeWhileD)
  moreover have "r = ws @ seconds_part so @ CHR '','' # post"
    using r takeWhile_dropWhile_id [of is_space r] by (simp add: ws_def)
  ultimately show ?thesis using D so g' by blast
qed

lemma token_match_SomeD:
  assumes "token_match s = Some g"
  shows "\<exists>ho md ws so post. token_ok ho md ws so \<and> s = token ho md ws so @ post \<and>
           token_groups ho md so g"
proof -
  from assms obtain t where s: "s = CHR ''('' # t" and h: "hours_start t = Some g"
    by (auto simp: token_match_def split: list.splits if_splits)
  show ?thesis
  proof (cases "unit_num CHR ''h'' t")
    case None
    with h have "minutes_end t Map.empty = Some g" by (simp add: hours_start_def)
    from minutes_end_SomeD [OF this] obtain md ws so post where
      *: "digits md" "spaces ws" "case so of None \<Rightarrow> True | Some sd \<Rightarrow> digits sd"
         "t = md @ CHR ''m'' # ws @ seconds_part so @ CHR '','' # post"
         "g = (case so of None \<Rightarrow> Map.empty(2 \<mapsto> md @ ''m'')
                 | Some sd \<Rightarrow> Map.empty(2 \<mapsto> md @ ''m'', 3 \<mapsto> sd @ ''s''))"
      by blast
    have "token_ok None md ws so" using * by (simp add: token_ok_def)
    moreover have "s = token None md ws so @ post"
      using * s by (simp add: token_def hours_part_def)
    moreover have "token_groups None md so g"
      using * by (simp add: token_groups_def split: option.splits)
    ultimately show ?thesis by blast
  next
    case (Some a)
    obtain hs r where a: "a = (hs, r)" by (cases a)
    note D = unit_num_digitsD [OF Some [unfolded a]]
    define w where "w = takeWhile is_space r"
    have w: "spaces w" by (simp add: w_def spaces_def list_all_iff) (meson set_takeWhileD)
    from h Some a have "minutes_end (dropWhile is_space r) [1 \<mapsto> hs @ ''h'' @ w] = Some g"
      by (simp add: hours_start_def w_def)
    from minutes_end_SomeD [OF this] obtain md ws so post where
      *: "digits md" "spaces ws" "case so of None \<Rightarrow> True | Some sd \<Rightarrow> digits sd"
         "dropWhile is_space r = md @ CHR ''m'' # ws @ seconds_part so @ CHR '','' # post"
         "g = (case so of None \<Rightarrow> [1 \<mapsto> hs @ ''h'' @ w, 2 \<mapsto> md @ ''m'']
                 | Some sd \<Rightarrow> [1 \<mapsto> hs @ ''h'' @ w, 2 \<mapsto> md @ ''m'', 3 \<mapsto> sd @ ''s''])"
      by blast
    have r: "r = w @ md @ CHR ''m'' # ws @ seconds_part so @ CHR '','' # post"
      using *(4) takeWhile_dropWhile_id [of is_space r] by (simp add: w_def)
    have "token_ok (Some (hs, w)) md ws so" using * D w by (simp add: token_ok_def)
    moreover have "s = token (Some (hs, w)) md ws so @ post"
      using s D(2) r by (simp add: token_def hours_part_def)
    moreover have "token_groups (Some (hs, w)) md so g"
      using * by (simp add: token_groups_def split: option.splits)
    ultimately show ?thesis by blast
  qed
qed





lemma search_SomeD:
  "search r s = Some g \<Longrightarrow> \<exists>k\<le>length s. match_at r (drop k s) = Some g"
proof (induction s)
  case Nil
  then show ?case by simp
next
  case (Cons x xs)
  show ?case
  proof (cases "match_at r (x # xs)")
    case None
    with Cons.prems have "search r xs = Some g" by simp
    from Cons.IH [OF this] obtain k where "k \<le> length xs" "match_at r (drop k xs) = Some g" by blast
    then have "Suc k \<le> length (x # xs) \<and> match_at r (drop (Suc k) (x # xs)) = Some g" by simp
    then show ?thesis by blast
  next
    case (Some a)
    with Cons.prems have "match_at r (drop 0 (x # xs)) = Some g" by simp
    then show ?thesis by blast
  qed
qed

lemma digits_no_space: "digits ds \<Longrightarrow> x \<in> set ds \<Longrightarrow> \<not> is_space x"
  by (auto simp: digits_def list_all_iff digit_not_space)

lemma dropWhile_space_digits: "digits ds \<Longrightarrow> dropWhile is_space (ds @ r) = ds @ r"
  by (cases ds) (auto simp: digits_def digit_not_space)

lemma strip_digits_spaces:
  assumes "digits ds" "spaces w"
  shows "strip (ds @ w) = ds"
proof -
  have 1: "dropWhile is_space (ds @ w) = ds @ w"
    using assms(1) by (rule dropWhile_space_digits)
  have "digits (rev ds)" using assms(1) by (simp add: digits_def)
  then have 2: "dropWhile is_space (rev ds) = rev ds"
    using dropWhile_space_digits [of "rev ds" "[]"] by simp
  have "dropWhile is_space (rev w @ rev ds) = dropWhile is_space (rev ds)"
    by (rule dropWhile_append2) (use assms(2) in \<open>simp add: spaces_def list_all_iff\<close>)
  with 1 2 show ?thesis by (simp add: strip_def)
qed

lemma digit_groups_digits: "digits ds \<Longrightarrow> digit_groups ds"
proof (induction ds rule: digit_groups.induct)
  case 1
  then show ?case by (simp add: digits_def)
next
  case (2 c)
  then show ?case by (simp add: digits_def)
next
  case (3 c d r)
  from "3.prems" have "is_digit c" "digits (d # r)" "d \<noteq> CHR ''_''"
    by (auto simp: digits_def)
  with "3.IH"(2) show ?case by simp
qed

lemma remove_chr_digits: "digits ds \<Longrightarrow> \<not> is_digit u \<Longrightarrow> remove_chr u ds = ds"
  by (auto simp: remove_chr_def digits_def list_all_iff intro!: filter_True)

lemma remove_chr_spaces: "spaces w \<Longrightarrow> \<not> is_space u \<Longrightarrow> remove_chr u w = w"
  by (auto simp: remove_chr_def spaces_def list_all_iff intro!: filter_True)

lemma py_int_str_digits:
  assumes "digits ds"
  shows "py_int_str ds = Inr (dec ds)"
proof -
  from digits_start [OF assms] obtain c r where cr: "ds = c # r" "is_digit c" by blast
  then have c: "c \<noteq> CHR ''-''" "c \<noteq> CHR ''+''" by auto
  have "strip ds = ds" using strip_digits_spaces [OF assms, of "[]"] by (simp add: spaces_def)
  then have s: "strip ds = c # r" by (simp add: cr)
  have "digit_groups (c # r)" "remove_chr CHR ''_'' (c # r) = c # r"
    using assms digit_groups_digits remove_chr_digits [of ds "CHR ''_''"] by (simp_all add: cr)
  then show ?thesis
    unfolding py_int_str_def s using c by (simp add: cr)
qed

lemma add_part_unit:
  assumes "digits ds" "spaces w" "\<not> is_digit u" "\<not> is_space u"
  shows "add_part (Some (ds @ u # w)) u f t = Inr (t + dec ds * f)"
proof -
  have "remove_chr u (ds @ u # w) = ds @ w"
    using remove_chr_digits [OF assms(1,3)] remove_chr_spaces [OF assms(2,4)]
    by (simp add: remove_chr_def)
  then have "py_int_str (strip (remove_chr u (ds @ u # w))) = Inr (dec ds)"
    using assms by (simp add: strip_digits_spaces py_int_str_digits)
  then show ?thesis by (simp add: add_part_def)
qed

lemma parse_duration_groups:
  assumes "token_ok ho md ws so" "token_groups ho md so g"
  shows "(case add_part (g 1) CHR ''h'' 3600 0 of
             Inl e \<Rightarrow> Inl e
           | Inr t1 \<Rightarrow>
               (case add_part (g 2) CHR ''m'' 60 t1 of
                  Inl e \<Rightarrow> Inl e
                | Inr t2 \<Rightarrow>
                    (case add_part (g 3) CHR ''s'' 1 t2 of
                       Inl e \<Rightarrow> Inl e
                     | Inr t3 \<Rightarrow> Inr (Some t3)))) = Inr (Some (token_seconds ho md so))"
proof -
  from assms(1) have md: "digits md" by (simp add: token_ok_def)
  have 1: "add_part (g 1) CHR ''h'' 3600 0 = Inr ((case ho of None \<Rightarrow> 0 | Some (hs, w) \<Rightarrow> dec hs) * 3600)"
  proof (cases ho)
    case None
    with assms(2) show ?thesis by (simp add: token_groups_def add_part_def)
  next
    case (Some a)
    obtain hs w where a: "a = (hs, w)" by (cases a)
    from assms(1) Some a have "digits hs" "spaces w" by (simp_all add: token_ok_def)
    then have "add_part (Some (hs @ CHR ''h'' # w)) CHR ''h'' 3600 0 = Inr (0 + dec hs * 3600)"
      by (intro add_part_unit) simp_all
    with assms(2) Some a show ?thesis by (simp add: token_groups_def)
  qed
  have 2: "add_part (g 2) CHR ''m'' 60 t = Inr (t + dec md * 60)" for t
    using add_part_unit [OF md, of "[]" "CHR ''m''" 60 t] assms(2)
    by (simp add: token_groups_def spaces_def)
  have 3: "add_part (g 3) CHR ''s'' 1 t = Inr (t + (case so of None \<Rightarrow> 0 | Some sd \<Rightarrow> dec sd))" for t
  proof (cases so)
    case None
    with assms(2) show ?thesis by (simp add: token_groups_def add_part_def)
  next
    case (Some sd)
    with assms(1) have "digits sd" by (simp add: token_ok_def)
    from add_part_unit [OF this, of "[]" "CHR ''s''" 1 t] assms(2) Some
    show ?thesis by (simp add: token_groups_def spaces_def)
  qed
  show ?thesis unfolding 1 2 3 token_seconds_def by simp
qed



lemma parse_duration_total: "\<exists>d. parse_duration ttl = Inr d"
proof (cases "search duration_re ttl")
  case None
  then show ?thesis by (simp add: parse_duration_def)
next
  case (Some g)
  from search_SomeD [OF this] obtain k where "match_at duration_re (drop k ttl) = Some g" by blast
  then have "token_match (drop k ttl) = Some g" by (simp add: re_token)
  from token_match_SomeD [OF this] obtain ho md ws so where
    "token_ok ho md ws so" "token_groups ho md so g" by blast
  from parse_duration_groups [OF this] Some show ?thesis by (simp add: parse_duration_def)
qed




section \<open>Properties of the external calls and of the seek time\<close>

lemma generate_thumbnail_cases:
  "generate_thumbnail run u out seek =
     Inr (case run (generate_thumbnail_cmd u out seek) 60 of
            Completed rc so se \<Rightarrow>
              if rc = 0 then (True, [Run_ffmpeg (generate_thumbnail_cmd u out seek)])
              else (False, [Run_ffmpeg (generate_thumbnail_cmd u out seek), FFmpeg_error (take 200 se)])
          | Raised x \<Rightarrow>
              (False, [Run_ffmpeg (generate_thumbnail_cmd u out seek),
                       if x = TimeoutExpired then Timeout_extracting else Error x]))"
  by (cases "run (generate_thumbnail_cmd u out seek) 60")
     (auto simp: generate_thumbnail_def generate_thumbnail_try_def Let_def split: py_exn.splits)

lemma get_video_duration_probe:
  "Run_ffprobe c \<in> set (snd (get_video_duration run u)) \<longleftrightarrow> c = ffprobe_cmd u"
  by (auto simp: get_video_duration_def split: sum.splits)

lemma get_video_duration_no_fallback:
  "Using_fallback \<notin> set (snd (get_video_duration run u))"
  by (auto simp: get_video_duration_def split: sum.splits)


lemma probe_seek_probe:
  "Run_ffprobe c \<in> set (snd (probe_seek run u)) \<longleftrightarrow> c = ffprobe_cmd u"
  using get_video_duration_probe [of c run u]
  by (cases "get_video_duration run u")
     (auto simp: probe_seek_def truthy_def split: option.splits)

lemma probe_seek_fallback:
  "Using_fallback \<in> set (snd (probe_seek run u)) \<longleftrightarrow>
     fst (get_video_duration run u) = None \<or> fst (get_video_duration run u) = Some (Fin 0)"
  using get_video_duration_no_fallback [of run u]
  by (cases "get_video_duration run u")
     (auto simp: probe_seek_def truthy_def split: option.splits)

lemma seek_time_of_Some:
  "seek_time_of run u (Some d) =
     (if d = 0 then probe_seek run u
      else (PFloat (Fin (of_int d / 2)), [Duration_seeking (PInt d) (PFloat (Fin (of_int d / 2)))]))"
  by (simp add: seek_time_of_def truthy_def)

lemma seek_time_of_None: "seek_time_of run u None = probe_seek run u"
  by (simp add: seek_time_of_def truthy_def)

lemma get_video_duration_no_ffmpeg: "Run_ffmpeg c \<notin> set (snd (get_video_duration run u))"
  by (auto simp: get_video_duration_def split: sum.splits)

lemma probe_seek_no_ffmpeg: "Run_ffmpeg c \<notin> set (snd (probe_seek run u))"
  using get_video_duration_no_ffmpeg [of c run u]
  by (cases "get_video_duration run u")
     (auto simp: probe_seek_def truthy_def split: option.splits)

lemma seek_time_of_no_ffmpeg: "Run_ffmpeg c \<notin> set (snd (seek_time_of run u d))"
  by (cases d) (auto simp: seek_time_of_Some seek_time_of_None probe_seek_no_ffmpeg)

lemma generate_thumbnail_Inr:
  "\<exists>ok evs. generate_thumbnail run u out seek = Inr (ok, evs) \<and>
     (\<forall>c. Run_ffmpeg c \<in> set evs \<longleftrightarrow> c = generate_thumbnail_cmd u out seek)"
  unfolding generate_thumbnail_cases
  by (cases "run (generate_thumbnail_cmd u out seek) 60") auto

section \<open>Properties of one pass of the loop\<close>

lemma process_video_missing:
  assumes "url video = None \<or> url video = Some [] \<or>
           identifier_field video = None \<or> identifier_field video = Some []"
  shows "process_video e n i video st = Inr (skip (Skipping_missing i n) st)"
  using assms by (auto simp: process_video_def split: option.splits)

lemma process_video_exists:
  assumes "url video = Some u" "u \<noteq> []" "identifier_field video = Some ident" "ident \<noteq> []"
    "thumb_exists e i (ident @ ''.jpg'')"
  shows "process_video e n i video st = Inr (skip (Exists i n (ident @ ''.jpg'')) st)"
  using assms by (simp add: process_video_def)

lemma process_video_processed:
  assumes "url video = Some u" "u \<noteq> []" "identifier_field video = Some ident" "ident \<noteq> []"
    "\<not> thumb_exists e i (ident @ ''.jpg'')"
  shows "\<exists>duration ok evs' st'.
     parse_duration (case title video of None \<Rightarrow> [] | Some t \<Rightarrow> t) = Inr duration \<and>
     generate_thumbnail (ffmpeg e i) u (Str_path ''thumbnails'' (ident @ ''.jpg''))
        (Some (fst (seek_time_of (ffprobe e i) u duration))) = Inr (ok, evs') \<and>
     process_video e n i video st = Inr st' \<and>
     success_count st' = success_count st + (if ok then 1 else 0) \<and>
     failed_count st' = failed_count st + (if ok then 0 else 1) \<and>
     skipped_count st' = skipped_count st \<and>
     trace st' = trace st @
        Processing i n (take 60 (case title video of None \<Rightarrow> [] | Some t \<Rightarrow> t)) #
        snd (seek_time_of (ffprobe e i) u duration) @ evs' @
        (if ok then [Saved (ident @ ''.jpg'')] else [])"
proof -
  let ?ttl = "case title video of None \<Rightarrow> [] | Some t \<Rightarrow> t"
  obtain duration where d: "parse_duration ?ttl = Inr duration"
    using parse_duration_total by blast
  obtain seek evs where s: "seek_time_of (ffprobe e i) u duration = (seek, evs)"
    by (cases "seek_time_of (ffprobe e i) u duration")
  obtain ok evs' where g: "generate_thumbnail (ffmpeg e i) u (Str_path ''thumbnails'' (ident @ ''.jpg''))
        (Some seek) = Inr (ok, evs')"
    using generate_thumbnail_Inr by blast
  let ?tr = "trace st @ Processing i n (take 60 ?ttl) # evs @ evs'"
  define st' where "st' =
     (if ok then st\<lparr>success_count := success_count st + 1, trace := ?tr @ [Saved (ident @ ''.jpg'')]\<rparr>
      else st\<lparr>failed_count := failed_count st + 1, trace := ?tr\<rparr>)"
  have pv: "process_video e n i video st = Inr st'"
    using assms d s g by (simp add: process_video_def st'_def)
  have g': "generate_thumbnail (ffmpeg e i) u (Str_path ''thumbnails'' (ident @ ''.jpg''))
        (Some (fst (seek_time_of (ffprobe e i) u duration))) = Inr (ok, evs')"
    using g s by simp
  have c: "success_count st' = success_count st + (if ok then 1 else 0)"
    "failed_count st' = failed_count st + (if ok then 0 else 1)"
    "skipped_count st' = skipped_count st"
    "trace st' = trace st @ Processing i n (take 60 ?ttl) #
        snd (seek_time_of (ffprobe e i) u duration) @ evs' @
        (if ok then [Saved (ident @ ''.jpg'')] else [])"
    using s by (simp_all add: st'_def)
  from d g' pv c show ?thesis by blast
qed

lemma process_video_total: "\<exists>st'. process_video e n i video st = Inr st'"
proof -
  consider "url video = None \<or> url video = Some [] \<or>
           identifier_field video = None \<or> identifier_field video = Some []"
    | u ident where "url video = Some u" "u \<noteq> []" "identifier_field video = Some ident" "ident \<noteq> []"
    by (cases "url video"; cases "identifier_field video") auto
  then show ?thesis
  proof cases
    case 1
    then show ?thesis using process_video_missing by blast
  next
    case (2 u ident)
    show ?thesis
    proof (cases "thumb_exists e i (ident @ ''.jpg'')")
      case True
      with 2 show ?thesis using process_video_exists by blast
    next
      case False
      with 2 process_video_processed [of video u ident e i n st] show ?thesis by blast
    qed
  qed
qed


lemma process_video_trace:
  assumes "process_video e n i video st = Inr st'"
  shows "\<exists>new. trace st' = trace st @ new \<and>
     (\<forall>c. Run_ffmpeg c \<in> set new \<longrightarrow>
        (\<exists>u ident seek. url video = Some u \<and> u \<noteq> [] \<and> identifier_field video = Some ident \<and>
           ident \<noteq> [] \<and> c = thumb_cmd u ident seek))"
proof -
  consider "url video = None \<or> url video = Some [] \<or>
           identifier_field video = None \<or> identifier_field video = Some []"
    | u ident where "url video = Some u" "u \<noteq> []" "identifier_field video = Some ident" "ident \<noteq> []"
    by (cases "url video"; cases "identifier_field video") auto
  then show ?thesis
  proof cases
    case 1
    from process_video_missing [OF 1, of e n i st] assms
    have "trace st' = trace st @ [Skipping_missing i n]" by (auto simp: skip_def)
    then show ?thesis by simp
  next
    case (2 u ident)
    show ?thesis
    proof (cases "thumb_exists e i (ident @ ''.jpg'')")
      case True
      from process_video_exists [OF 2 True, of n st] assms
      have "trace st' = trace st @ [Exists i n (ident @ ''.jpg'')]" by (auto simp: skip_def)
      then show ?thesis by simp
    next
      case False
      let ?ttl = "case title video of None \<Rightarrow> [] | Some t \<Rightarrow> t"
      from process_video_processed [OF 2 False, of n st] assms
      obtain duration ok evs' where
        g: "generate_thumbnail (ffmpeg e i) u (Str_path ''thumbnails'' (ident @ ''.jpg''))
             (Some (fst (seek_time_of (ffprobe e i) u duration))) = Inr (ok, evs')"
        and t: "trace st' = trace st @ Processing i n (take 60 ?ttl) #
             snd (seek_time_of (ffprobe e i) u duration) @ evs' @
             (if ok then [Saved (ident @ ''.jpg'')] else [])"
        by auto
      from g generate_thumbnail_Inr [of "ffmpeg e i" u "Str_path ''thumbnails'' (ident @ ''.jpg'')"
          "Some (fst (seek_time_of (ffprobe e i) u duration))"]
      have e': "\<forall>c. Run_ffmpeg c \<in> set evs' \<longleftrightarrow>
          c = thumb_cmd u ident (fst (seek_time_of (ffprobe e i) u duration))"
        by (simp add: thumb_cmd_def)
      let ?new = "Processing i n (take 60 ?ttl) #
             snd (seek_time_of (ffprobe e i) u duration) @ evs' @
             (if ok then [Saved (ident @ ''.jpg'')] else [])"
      have "\<forall>c. Run_ffmpeg c \<in> set ?new \<longrightarrow>
          c = thumb_cmd u ident (fst (seek_time_of (ffprobe e i) u duration))"
        using e' seek_time_of_no_ffmpeg by auto
      with t 2 show ?thesis by blast
    qed
  qed
qed


section \<open>Properties of the loop, of deduplication and of main\<close>



lemma process_videos_trace:
  "process_videos e n i vs st = Inr st' \<Longrightarrow>
   \<exists>new. trace st' = trace st @ new \<and>
     (\<forall>c. Run_ffmpeg c \<in> set new \<longrightarrow>
        (\<exists>v\<in>set vs. \<exists>u ident seek. url v = Some u \<and> u \<noteq> [] \<and>
           identifier_field v = Some ident \<and> ident \<noteq> [] \<and> c = thumb_cmd u ident seek))"
proof (induction vs arbitrary: i st)
  case Nil
  then show ?case by simp
next
  case (Cons v vs)
  obtain st1 where 1: "process_video e n i v st = Inr st1" using process_video_total by blast
  with Cons.prems have 2: "process_videos e n (i + 1) vs st1 = Inr st'" by simp
  from process_video_trace [OF 1] obtain new1 where
    n1: "trace st1 = trace st @ new1"
    "\<forall>c. Run_ffmpeg c \<in> set new1 \<longrightarrow>
        (\<exists>u ident seek. url v = Some u \<and> u \<noteq> [] \<and> identifier_field v = Some ident \<and>
           ident \<noteq> [] \<and> c = thumb_cmd u ident seek)"
    by blast
  from Cons.IH [OF 2] obtain new2 where
    n2: "trace st' = trace st1 @ new2"
    "\<forall>c. Run_ffmpeg c \<in> set new2 \<longrightarrow>
        (\<exists>v\<in>set vs. \<exists>u ident seek. url v = Some u \<and> u \<noteq> [] \<and>
           identifier_field v = Some ident \<and> ident \<noteq> [] \<and> c = thumb_cmd u ident seek)"
    by blast
  have "trace st' = trace st @ (new1 @ new2)" using n1 n2 by simp
  moreover have "\<forall>c. Run_ffmpeg c \<in> set (new1 @ new2) \<longrightarrow>
        (\<exists>v\<in>set (v # vs). \<exists>u ident seek. url v = Some u \<and> u \<noteq> [] \<and>
           identifier_field v = Some ident \<and> ident \<noteq> [] \<and> c = thumb_cmd u ident seek)"
    using n1(2) n2(2) by fastforce
  ultimately show ?case by blast
qed

lemma set_update_subset: "set (AList.update k v d) \<subseteq> insert (k, v) (set d)"
  by (induction d) auto

lemma keyed_update:
  assumes "keyed d vs" "v \<in> set vs" "identifier_field v = Some k" "k \<noteq> []"
  shows "keyed (AList.update k v d) vs"
  using assms set_update_subset [of k v d]
  by (auto simp: keyed_def list_all_iff)

lemma dedup_step_keyed:
  assumes "dedup_step d v = Inr d'" "keyed d vs" "v \<in> set vs"
  shows "keyed d' vs"
proof (cases "identifier_field v")
  case None
  with assms show ?thesis by (simp add: dedup_step_def)
next
  case (Some k)
  show ?thesis
  proof (cases "k = []")
    case True
    with Some assms show ?thesis by (simp add: dedup_step_def)
  next
    case False
    from keyed_update [OF assms(2,3) Some False] have "keyed (AList.update k v d) vs" .
    with assms(1,2) Some False show ?thesis
      by (auto simp: dedup_step_def split: option.splits sum.splits if_splits)
  qed
qed

lemma dedup_keyed:
  "dedup d ws = Inr d' \<Longrightarrow> keyed d vs \<Longrightarrow> set ws \<subseteq> set vs \<Longrightarrow> keyed d' vs"
proof (induction ws arbitrary: d)
  case Nil
  then show ?case by simp
next
  case (Cons w ws)
  from Cons.prems(1) obtain d1 where 1: "dedup_step d w = Inr d1" and 2: "dedup d1 ws = Inr d'"
    by (auto split: sum.splits)
  from dedup_step_keyed [OF 1 Cons.prems(2)] Cons.prems(3) have "keyed d1 vs" by simp
  from Cons.IH [OF 2 this] Cons.prems(3) show ?case by simp
qed

lemma deduplicate_records:
  assumes "deduplicate vs = Inr videos" "v \<in> set videos"
  shows "v \<in> set vs \<and> (\<exists>ident. identifier_field v = Some ident \<and> ident \<noteq> [])"
proof -
  from assms(1) obtain d where d: "dedup [] vs = Inr d" "videos = map snd d"
    by (auto simp: deduplicate_def split: sum.splits)
  have "keyed [] vs" by (simp add: keyed_def)
  from dedup_keyed [OF d(1) this] have "keyed d vs" by simp
  with assms(2) d(2) show ?thesis by (auto simp: keyed_def list_all_iff)
qed





lemma main_trace_empty_or_loop:
  assumes "manifest e = Loaded vs" "ev \<in> set (snd (main e))"
  shows "\<exists>videos st. deduplicate vs = Inr videos \<and>
     process_videos e (length videos) 1 videos
        \<lparr>success_count = 0, failed_count = 0, skipped_count = 0, trace = []\<rparr> = Inr st \<and>
     ev \<in> set (trace st)"
  using assms
  by (auto simp: main_def split: option.splits manifest_file.splits sum.splits)


lemma parse_duration_empty: "parse_duration [] = Inr None"
  by code_simp

lemma main_two_records:
  "main (failing_env (Loaded
      [record_of (Some ''a'') None None, record_of (Some ''b'') (Some ''http://a/b.mp4'') None])) =
   (Finished \<lparr>total_videos = 2, successful = 0, failed = 1, skipped = 1\<rparr>,
    [Skipping_missing 1 2, Processing 2 2 [], Trying_to_detect,
     Run_ffprobe (ffprobe_cmd ''http://a/b.mp4''), Could_not_get_duration TimeoutExpired,
     Using_fallback, Run_ffmpeg (thumb_cmd ''http://a/b.mp4'' ''b'' (PInt 30)),
     FFmpeg_error ''no such file''])"
  by (simp add: main_def failing_env_def check_ffmpeg_def deduplicate_def dedup_step_def
      record_of_def process_video_def skip_def parse_duration_empty seek_time_of_None
      probe_seek_def get_video_duration_def get_video_duration_try_def truthy_def
      generate_thumbnail_cases thumb_cmd_def)


section \<open>C1: deduplication and records of size zero\<close>

text \<open>
  What lines 131 to 143 do with two records of one identifier whose sizes convert: the
  second record replaces the first one when its size is smaller and positive.
\<close>

lemma dedup_pair:
  assumes "identifier_field a = Some k" "identifier_field b = Some k" "k \<noteq> []"
    "py_int (get_size a) = Inr sa" "py_int (get_size b) = Inr sb"
  shows "deduplicate [a, b] = Inr [if sb < sa \<and> sb > 0 then b else a]"
  using assms by (simp add: deduplicate_def dedup_step_def)

text \<open>
  Claim C1 says that for two records of one identifier the record of the smaller positive
  size is retained, the first one on a tie, and that a record of size zero is never the
  one retained when a duplicate of positive size exists, whichever comes first. The code
  does the first part. The test of line 142,
  \<^verbatim>\<open>new_size < current_size and new_size > 0\<close>, keeps a record of size zero from
  replacing another one, and it keeps every later record from replacing a first record of
  size zero. With the sizes 0 and 300 in this order the record of size 0 is retained, in
  the other order the record of size 300: the code fails the claim at the first input.
\<close>

theorem zero_size_first_is_retained:
  "deduplicate
     [record_of (Some ''abc'') (Some ''http://a/first.mp4'') (Some (JInt 0)),
      record_of (Some ''abc'') (Some ''http://a/second.mp4'') (Some (JInt 300))] =
   Inr [record_of (Some ''abc'') (Some ''http://a/first.mp4'') (Some (JInt 0))] \<and>
   deduplicate
     [record_of (Some ''abc'') (Some ''http://a/second.mp4'') (Some (JInt 300)),
      record_of (Some ''abc'') (Some ''http://a/first.mp4'') (Some (JInt 0))] =
   Inr [record_of (Some ''abc'') (Some ''http://a/second.mp4'') (Some (JInt 300))]"
  by (simp add: deduplicate_def dedup_step_def get_size_def record_of_def)

section \<open>C2: parse_duration and the duration token\<close>



section \<open>C3: the seek time\<close>




section \<open>C4: the order of the three sources\<close>

text \<open>
  Claim C4 says that a title that parses, also to 0 seconds, never triggers the probe.
  The title \<^verbatim>\<open>Clip (0m 00s, 320x240)\<close> parses to 0 and \<^verbatim>\<open>ffprobe\<close> is started:
\<close>

theorem zero_duration_triggers_probe:
  "parse_duration ''Clip (0m 00s, 320x240)'' = Inr (Some 0) \<and>
   Run_ffprobe (ffprobe_cmd ''http://a/v.mp4'') \<in>
     set (snd (seek_time_of (\<lambda>c t. Completed 0 (Inr (Fin 100)) []) ''http://a/v.mp4'' (Some 0)))"
  by (simp add: seek_time_of_Some probe_seek_probe) code_simp

text \<open>
  Claim C4 as amended. The probe is invoked if and only if the title gives no duration or
  a duration of zero; the fallback constant is used if and only if, in addition, the probe
  gives no duration or zero. A title that parses to a duration other than zero never
  triggers the probe.
\<close>

theorem probe_and_fallback_order:
  "((\<exists>c. Run_ffprobe c \<in> set (snd (seek_time_of run u duration))) \<longleftrightarrow>
      duration = None \<or> duration = Some 0) \<and>
   (Using_fallback \<in> set (snd (seek_time_of run u duration)) \<longleftrightarrow>
      (duration = None \<or> duration = Some 0) \<and>
      (fst (get_video_duration run u) = None \<or> fst (get_video_duration run u) = Some (Fin 0)))"
  by (cases duration)
     (auto simp: seek_time_of_Some seek_time_of_None probe_seek_probe probe_seek_fallback)

text \<open>
  The theorem at a title duration of 841 seconds and at a title without duration.
\<close>

theorem probe_and_fallback_order_witness:
  "\<not> (\<exists>c. Run_ffprobe c \<in> set (snd (seek_time_of (\<lambda>c t. Raised TimeoutExpired) ''u'' (Some 841)))) \<and>
   Using_fallback \<notin> set (snd (seek_time_of (\<lambda>c t. Raised TimeoutExpired) ''u'' (Some 841))) \<and>
   (\<exists>c. Run_ffprobe c \<in> set (snd (seek_time_of (\<lambda>c t. Raised TimeoutExpired) ''u'' None))) \<and>
   Using_fallback \<in> set (snd (seek_time_of (\<lambda>c t. Raised TimeoutExpired) ''u'' None))"
proof -
  have "fst (get_video_duration (\<lambda>c t. Raised TimeoutExpired) ''u'') = None"
    by (simp add: get_video_duration_def get_video_duration_try_def)
  then show ?thesis
    using probe_and_fallback_order [of "\<lambda>c t. Raised TimeoutExpired" "''u''" "Some 841"]
      probe_and_fallback_order [of "\<lambda>c t. Raised TimeoutExpired" "''u''" None]
    by simp
qed

section \<open>C5: records without URL or identifier\<close>

text \<open>
  Claim C5 says that every record of the manifest without an identifier is counted as
  skipped. Line 133 drops such a record before the loop; it is counted nowhere:
\<close>

theorem record_without_identifier_not_counted:
  "main (failing_env (Loaded [record_of None (Some ''http://a/v.mp4'') (Some (JInt 300))])) =
     (Finished \<lparr>total_videos = 0, successful = 0, failed = 0, skipped = 0\<rparr>, [])"
  by (simp add: main_def failing_env_def check_ffmpeg_def deduplicate_def dedup_step_def
      record_of_def)

text \<open>
  Claim C5 as amended. A record that reaches the loop without a URL or without an
  identifier is counted in the skipped counter, starts no process and lets the run go on
  with the next record. Deduplication keeps only records of the manifest that have an
  identifier, so a record without identifier is dropped before the loop. No record of
  the manifest without a URL or without an identifier ever reaches the extraction step.
\<close>

theorem missing_fields_never_extracted:
  "((url video = None \<or> url video = Some [] \<or>
     identifier_field video = None \<or> identifier_field video = Some []) \<longrightarrow>
      (\<exists>st'. process_video e n i video st = Inr st' \<and>
         skipped_count st' = skipped_count st + 1 \<and> success_count st' = success_count st \<and>
         failed_count st' = failed_count st \<and> trace st' = trace st @ [Skipping_missing i n])) \<and>
   (deduplicate vs = Inr videos \<longrightarrow>
      (\<forall>v\<in>set videos. v \<in> set vs \<and> (\<exists>ident. identifier_field v = Some ident \<and> ident \<noteq> []))) \<and>
   (manifest e = Loaded vs \<longrightarrow> Run_ffmpeg c \<in> set (snd (main e)) \<longrightarrow>
      (\<exists>v\<in>set vs. \<exists>u ident seek. url v = Some u \<and> u \<noteq> [] \<and>
         identifier_field v = Some ident \<and> ident \<noteq> [] \<and> c = thumb_cmd u ident seek))"
proof (intro conjI impI)
  assume "url video = None \<or> url video = Some [] \<or>
     identifier_field video = None \<or> identifier_field video = Some []"
  from process_video_missing [OF this, of e n i st]
  show "\<exists>st'. process_video e n i video st = Inr st' \<and>
         skipped_count st' = skipped_count st + 1 \<and> success_count st' = success_count st \<and>
         failed_count st' = failed_count st \<and> trace st' = trace st @ [Skipping_missing i n]"
    by (simp add: skip_def)
next
  assume "deduplicate vs = Inr videos"
  then show "\<forall>v\<in>set videos. v \<in> set vs \<and> (\<exists>ident. identifier_field v = Some ident \<and> ident \<noteq> [])"
    using deduplicate_records by blast
next
  assume m: "manifest e = Loaded vs" and c: "Run_ffmpeg c \<in> set (snd (main e))"
  from main_trace_empty_or_loop [OF m c] obtain videos st where
    d: "deduplicate vs = Inr videos"
    and p: "process_videos e (length videos) 1 videos
        \<lparr>success_count = 0, failed_count = 0, skipped_count = 0, trace = []\<rparr> = Inr st"
    and t: "Run_ffmpeg c \<in> set (trace st)"
    by blast
  from process_videos_trace [OF p] t obtain v u ident seek where
    "v \<in> set videos" "url v = Some u" "u \<noteq> []" "identifier_field v = Some ident" "ident \<noteq> []"
    "c = thumb_cmd u ident seek"
    by auto
  moreover from this(1) d have "v \<in> set vs" using deduplicate_records by blast
  ultimately show "\<exists>v\<in>set vs. \<exists>u ident seek. url v = Some u \<and> u \<noteq> [] \<and>
         identifier_field v = Some ident \<and> ident \<noteq> [] \<and> c = thumb_cmd u ident seek"
    by blast
qed

text \<open>
  The theorem at a record without URL, at a manifest whose first record has no
  identifier, and at a run over a record without URL and a complete one.
\<close>

theorem missing_fields_never_extracted_witness:
  "(\<exists>st'. process_video (failing_env No_file) 2 1 (record_of (Some ''a'') None None)
        \<lparr>success_count = 0, failed_count = 0, skipped_count = 0, trace = []\<rparr> = Inr st' \<and>
      skipped_count st' = 1 \<and> trace st' = [Skipping_missing 1 2]) \<and>
   deduplicate [record_of None (Some ''http://a/x.mp4'') None,
                record_of (Some ''b'') (Some ''http://a/b.mp4'') None] =
     Inr [record_of (Some ''b'') (Some ''http://a/b.mp4'') None] \<and>
   Run_ffmpeg (thumb_cmd ''http://a/b.mp4'' ''b'' (PInt 30)) \<in> set (snd (main (failing_env (Loaded
      [record_of (Some ''a'') None None, record_of (Some ''b'') (Some ''http://a/b.mp4'') None])))) \<and>
   (\<exists>v\<in>set [record_of (Some ''a'') None None, record_of (Some ''b'') (Some ''http://a/b.mp4'') None].
      \<exists>u ident seek. url v = Some u \<and> u \<noteq> [] \<and> identifier_field v = Some ident \<and> ident \<noteq> [] \<and>
        thumb_cmd ''http://a/b.mp4'' ''b'' (PInt 30) = thumb_cmd u ident seek)"
proof -
  let ?a = "record_of (Some ''a'') None None"
  let ?b = "record_of (Some ''b'') (Some ''http://a/b.mp4'') None"
  let ?x = "record_of None (Some ''http://a/x.mp4'') None"
  let ?e = "failing_env (Loaded [?a, ?b])"
  let ?c = "thumb_cmd ''http://a/b.mp4'' ''b'' (PInt 30)"
  have u: "url ?a = None" by (simp add: record_of_def)
  have d: "deduplicate [?x, ?b] = Inr [?b]"
    by (simp add: deduplicate_def dedup_step_def record_of_def)
  have m: "manifest ?e = Loaded [?a, ?b]" by (simp add: failing_env_def)
  have c: "Run_ffmpeg ?c \<in> set (snd (main ?e))" by (simp add: main_two_records)
  let ?st = "\<lparr>success_count = 0, failed_count = 0, skipped_count = 0, trace = []\<rparr>"
  have "\<exists>st'. process_video (failing_env No_file) 2 1 ?a ?st = Inr st' \<and>
         skipped_count st' = skipped_count ?st + 1 \<and> success_count st' = success_count ?st \<and>
         failed_count st' = failed_count ?st \<and> trace st' = trace ?st @ [Skipping_missing 1 2]"
    using missing_fields_never_extracted [where video = ?a and e = "failing_env No_file" and n = 2
      and i = 1 and st = ?st and vs = "[?x, ?b]" and videos = "[?b]" and c = ?c] u
    by blast
  then have 1: "\<exists>st'. process_video (failing_env No_file) 2 1 ?a ?st = Inr st' \<and>
      skipped_count st' = 1 \<and> trace st' = [Skipping_missing 1 2]"
    by auto
  from missing_fields_never_extracted [where video = ?a and e = ?e and n = 2
      and i = 1 and st = "\<lparr>success_count = 0, failed_count = 0, skipped_count = 0, trace = []\<rparr>"
      and vs = "[?a, ?b]" and videos = "[?b]" and c = ?c] m c
  have 2: "\<exists>v\<in>set [?a, ?b].
      \<exists>u ident seek. url v = Some u \<and> u \<noteq> [] \<and> identifier_field v = Some ident \<and> ident \<noteq> [] \<and>
        ?c = thumb_cmd u ident seek"
    by blast
  from 1 d c 2 show ?thesis by blast
qed

section \<open>C6: generate_thumbnail returns a boolean\<close>

text \<open>
  Claim C6. \<open>generate_thumbnail\<close> never raises past its own boundary: whatever the
  external process does within the 60 units of its timeout, the result is a boolean
  (\<open>Inr\<close>, never \<open>Inl\<close>). It is \<^verbatim>\<open>True\<close> exactly when the process exits with 0. A
  return code other than 0 gives \<^verbatim>\<open>False\<close> and prints the first 200 characters of the
  error output; the timeout gives \<^verbatim>\<open>False\<close>; any other exception gives \<^verbatim>\<open>False\<close>.
\<close>

theorem generate_thumbnail_returns_bool:
  "(\<exists>ok evs. generate_thumbnail run u out seek = Inr (ok, evs) \<and>
       (ok \<longleftrightarrow> (\<exists>so se. run (generate_thumbnail_cmd u out seek) 60 = Completed 0 so se))) \<and>
   (\<forall>rc so se. run (generate_thumbnail_cmd u out seek) 60 = Completed rc so se \<longrightarrow> rc \<noteq> 0 \<longrightarrow>
       generate_thumbnail run u out seek =
         Inr (False, [Run_ffmpeg (generate_thumbnail_cmd u out seek), FFmpeg_error (take 200 se)])) \<and>
   (run (generate_thumbnail_cmd u out seek) 60 = Raised TimeoutExpired \<longrightarrow>
       generate_thumbnail run u out seek =
         Inr (False, [Run_ffmpeg (generate_thumbnail_cmd u out seek), Timeout_extracting])) \<and>
   (\<forall>x. run (generate_thumbnail_cmd u out seek) 60 = Raised x \<longrightarrow> x \<noteq> TimeoutExpired \<longrightarrow>
       generate_thumbnail run u out seek =
         Inr (False, [Run_ffmpeg (generate_thumbnail_cmd u out seek), Error x]))"
  unfolding generate_thumbnail_cases
  by (cases "run (generate_thumbnail_cmd u out seek) 60") auto

text \<open>
  The theorem at a process that fails with 250 characters of error output, at one that
  runs into the timeout of 60, and at one that cannot be started.
\<close>

theorem generate_thumbnail_returns_bool_witness:
  "generate_thumbnail (\<lambda>c t. Completed 1 [] (replicate 250 CHR ''x'')) ''u'' (Str ''o.jpg'') None =
     Inr (False, [Run_ffmpeg (generate_thumbnail_cmd ''u'' (Str ''o.jpg'') None),
                  FFmpeg_error (replicate 200 CHR ''x'')]) \<and>
   generate_thumbnail (\<lambda>c t. if t = 60 then Raised TimeoutExpired else Completed 0 [] [])
       ''u'' (Str ''o.jpg'') None =
     Inr (False, [Run_ffmpeg (generate_thumbnail_cmd ''u'' (Str ''o.jpg'') None), Timeout_extracting]) \<and>
   generate_thumbnail (\<lambda>c t. Raised PermissionError) ''u'' (Str ''o.jpg'') None =
     Inr (False, [Run_ffmpeg (generate_thumbnail_cmd ''u'' (Str ''o.jpg'') None), Error PermissionError])"
  using generate_thumbnail_returns_bool
          [of "\<lambda>c t. Completed 1 [] (replicate 250 CHR ''x'')" "''u''" "Str ''o.jpg''" None]
        generate_thumbnail_returns_bool
          [of "\<lambda>c t. if t = 60 then Raised TimeoutExpired else Completed 0 [] []" "''u''" "Str ''o.jpg''" None]
        generate_thumbnail_returns_bool
          [of "\<lambda>c t. Raised PermissionError" "''u''" "Str ''o.jpg''" None]
  by simp

section \<open>C7: sizes that are absent or do not convert\<close>




section \<open>C8: exit codes\<close>




section \<open>C9: the seek argument of the command\<close>

text \<open>
  Claim C9 says that every call with a seek time puts \<^verbatim>\<open>-ss <seek>\<close> into the command.
  The test of line 75 is \<^verbatim>\<open>if seek_time:\<close>, so the seek time 0 is given and the command
  has no \<^verbatim>\<open>-ss\<close>:
\<close>

theorem seek_zero_gives_no_ss:
  "generate_thumbnail_cmd ''http://a/v.mp4'' (Str ''thumbnails/v.jpg'') (Some (PInt 0)) =
     [Str ''ffmpeg'', Str ''-y'', Str ''-i'', Str ''http://a/v.mp4'', Str ''-vframes'', Str ''1'',
      Str ''-q:v'', Str ''2'', Str ''-vf'', Str ''scale=320:-1'', Str ''thumbnails/v.jpg'']"
  by (simp add: generate_thumbnail_cmd_def)

text \<open>
  Claim C9 as amended. For every call with a seek time other than zero the command has
  \<^verbatim>\<open>-ss\<close> and the seek time before \<^verbatim>\<open>-i\<close>; for a seek time of zero (0 or 0.0) and
  for no seek time the command has no seek argument.
\<close>

theorem generate_thumbnail_cmd_seek:
  "(num_truthy t \<longrightarrow>
      generate_thumbnail_cmd u out (Some t) =
        [Str ''ffmpeg'', Str ''-y'', Str ''-ss'', Str_num t, Str ''-i'', Str u, Str ''-vframes'',
         Str ''1'', Str ''-q:v'', Str ''2'', Str ''-vf'', Str ''scale=320:-1'', out]) \<and>
   (\<not> num_truthy t \<longrightarrow>
      generate_thumbnail_cmd u out (Some t) =
        [Str ''ffmpeg'', Str ''-y'', Str ''-i'', Str u, Str ''-vframes'',
         Str ''1'', Str ''-q:v'', Str ''2'', Str ''-vf'', Str ''scale=320:-1'', out]) \<and>
   generate_thumbnail_cmd u out None =
        [Str ''ffmpeg'', Str ''-y'', Str ''-i'', Str u, Str ''-vframes'',
         Str ''1'', Str ''-q:v'', Str ''2'', Str ''-vf'', Str ''scale=320:-1'', out]"
  by (simp add: generate_thumbnail_cmd_def)

text \<open>
  The theorem at the seek times 30.0 and 0.0.
\<close>

theorem generate_thumbnail_cmd_seek_witness:
  "num_truthy (PFloat (Fin 30)) \<and>
   generate_thumbnail_cmd ''u'' (Str ''o.jpg'') (Some (PFloat (Fin 30))) =
        [Str ''ffmpeg'', Str ''-y'', Str ''-ss'', Str_num (PFloat (Fin 30)), Str ''-i'', Str ''u'',
         Str ''-vframes'', Str ''1'', Str ''-q:v'', Str ''2'', Str ''-vf'', Str ''scale=320:-1'',
         Str ''o.jpg''] \<and>
   \<not> num_truthy (PFloat (Fin 0)) \<and>
   generate_thumbnail_cmd ''u'' (Str ''o.jpg'') (Some (PFloat (Fin 0))) =
        [Str ''ffmpeg'', Str ''-y'', Str ''-i'', Str ''u'',
         Str ''-vframes'', Str ''1'', Str ''-q:v'', Str ''2'', Str ''-vf'', Str ''scale=320:-1'',
         Str ''o.jpg'']"
  using generate_thumbnail_cmd_seek [of "PFloat (Fin 30)" "''u''" "Str ''o.jpg''"]
        generate_thumbnail_cmd_seek [of "PFloat (Fin 0)" "''u''" "Str ''o.jpg''"]
  by simp

section \<open>C10: the three counters\<close>



end
